theory Spec2Isabelle
  imports Main "HOL-Library.AList"
begin

section \<open>Python values\<close>

text \<open>
  The converters of \<^verbatim>\<open>main.py\<close> work on records as \<^verbatim>\<open>json.load\<close> returns them: \<^verbatim>\<open>None\<close>,
  booleans, integers, floats, strings, lists and dicts with string keys. Python's integers
  are unbounded (\<^typ>\<open>int\<close>). No operation of the converters looks inside a float, so floats
  are carried as values of an unspecified type. A string is a sequence of characters with
  code points below 256. A dict is an association list in insertion order; it stands for a
  Python dict when its keys are distinct, and equality of association lists implies
  equality of the dicts.
\<close>

typedecl pyfloat

datatype pyval =
    PNone
  | PBool bool
  | PInt int
  | PFloat pyfloat
  | PStr string
  | PList "pyval list"
  | PDict "(string \<times> pyval) list"

type_synonym pydict = "(string \<times> pyval) list"

datatype py_error = ValueError | AttributeError | TypeError | NoObject

text \<open>\<^verbatim>\<open>d.get(k, default)\<close>: the value stored under \<open>k\<close>, the default only when \<open>k\<close> is absent.\<close>

definition dict_get :: "(string \<times> 'v) list \<Rightarrow> string \<Rightarrow> 'v \<Rightarrow> 'v" where
  "dict_get d k dflt = (case map_of d k of Some v \<Rightarrow> v | None \<Rightarrow> dflt)"

text \<open>
  \<^verbatim>\<open>d[k] = v\<close>: replaces the value of an existing key in place, appends a new key at the end.
\<close>

definition dict_set :: "string \<Rightarrow> 'v \<Rightarrow> (string \<times> 'v) list \<Rightarrow> (string \<times> 'v) list" where
  "dict_set k v d = AList.update k v d"

section \<open>String builtins\<close>

text \<open>\<^verbatim>\<open>s.split(sep)\<close> for a separator of one character: one part more than separators.\<close>

fun py_split :: "char \<Rightarrow> string \<Rightarrow> string list" where
  "py_split sep [] = [[]]"
| "py_split sep (c # cs) =
     (if c = sep then [] # py_split sep cs
      else (case py_split sep cs of
              p # ps \<Rightarrow> (c # p) # ps
            | [] \<Rightarrow> [[c]]))"

text \<open>
  \<^verbatim>\<open>s.lower()\<close> on code points below 256: \<open>A\<close> to \<open>Z\<close> and the accented capitals 192 to 222
  (without the multiplication sign 215) move up by 32.
\<close>

definition py_lower_char :: "char \<Rightarrow> char" where
  "py_lower_char c =
     (let n = (of_char c :: nat)
      in if (65 \<le> n \<and> n \<le> 90) \<or> (192 \<le> n \<and> n \<le> 222 \<and> n \<noteq> 215)
         then char_of (n + 32) else c)"

definition py_lower :: "string \<Rightarrow> string" where
  "py_lower s = map py_lower_char s"

text \<open>
  \<^verbatim>\<open>int(s)\<close> for a string, base 10: white space, an optional sign, digits with single
  underscores between them, white space. Anything else raises \<^verbatim>\<open>ValueError\<close>, here \<open>None\<close>.
  The white space of \<^verbatim>\<open>int\<close> is tab, line feed, vertical tab, form feed, carriage return,
  space, and the code points 133 and 160. The interpreter's limit on the number of digits
  is not modelled.
\<close>

definition py_isspace :: "char \<Rightarrow> bool" where
  "py_isspace c = ((of_char c :: nat) \<in> {9, 10, 11, 12, 13, 32, 133, 160})"

definition digit_val :: "char \<Rightarrow> nat option" where
  "digit_val c =
     (let n = (of_char c :: nat) in if 48 \<le> n \<and> n \<le> 57 then Some (n - 48) else None)"

fun scan_digit :: "nat \<Rightarrow> string \<Rightarrow> (nat \<times> string) option"
  and scan_more :: "nat \<Rightarrow> string \<Rightarrow> (nat \<times> string) option" where
  "scan_digit acc [] = None"
| "scan_digit acc (c # cs) =
     (case digit_val c of None \<Rightarrow> None | Some d \<Rightarrow> scan_more (acc * 10 + d) cs)"
| "scan_more acc [] = Some (acc, [])"
| "scan_more acc (c # cs) =
     (if c = CHR ''_'' then scan_digit acc cs
      else (case digit_val c of
              Some d \<Rightarrow> scan_more (acc * 10 + d) cs
            | None \<Rightarrow> Some (acc, c # cs)))"

definition py_sign :: "string \<Rightarrow> bool \<times> string" where
  "py_sign s =
     (case s of
        [] \<Rightarrow> (False, [])
      | c # cs \<Rightarrow> if c = CHR ''+'' then (False, cs)
                  else if c = CHR ''-'' then (True, cs)
                  else (False, s))"

definition py_int :: "string \<Rightarrow> int option" where
  "py_int s =
     (case py_sign (dropWhile py_isspace s) of
        (neg, ds) \<Rightarrow>
          (case scan_digit 0 ds of
             None \<Rightarrow> None
           | Some (n, rest) \<Rightarrow>
               if dropWhile py_isspace rest = []
               then Some (if neg then - int n else int n)
               else None))"

section \<open>The flattened converter\<close>

text \<open>
  The loop of \<^verbatim>\<open>convert_flattened_to_unified\<close> over \<^verbatim>\<open>flattened_data['items']\<close>. The first
  argument is the list \<^verbatim>\<open>unified_data['items']\<close> built so far. \<^verbatim>\<open>item_str.split(':')\<close> exists
  for a string only: any other element raises \<^verbatim>\<open>AttributeError\<close>. \<^verbatim>\<open>int(parts[0])\<close> raises
  \<^verbatim>\<open>ValueError\<close>. Neither is caught, so the loop ends at the first of them.
\<close>

fun items_loop :: "pyval list \<Rightarrow> pyval list \<Rightarrow> py_error + pyval list" where
  "items_loop items [] = Inr items"
| "items_loop items (item_str # rest) =
     (case item_str of
        PStr s \<Rightarrow>
          (let parts = py_split CHR '':'' s
           in if length parts = 3
              then (case py_int (parts ! 0) of
                      None \<Rightarrow> Inl ValueError
                    | Some n \<Rightarrow>
                        items_loop
                          (items @ [PDict [(''id'', PInt n),
                                           (''title'', PStr (parts ! 1)),
                                           (''active'', PBool (py_lower (parts ! 2) = ''true''))]])
                          rest)
              else items_loop items rest)
      | _ \<Rightarrow> Inl AttributeError)"

definition convert_flattened_to_unified :: "pydict \<Rightarrow> py_error + pydict" where
  "convert_flattened_to_unified flattened_data =
     (let unified_data = [];
          unified_data =
            dict_set ''message'' (dict_get flattened_data ''message'' (PStr '''')) unified_data;
          unified_data =
            dict_set ''timestamp'' (dict_get flattened_data ''timestamp'' (PStr '''')) unified_data;
          unified_data =
            dict_set ''user''
              (PDict [(''id'', dict_get flattened_data ''user_id'' PNone),
                      (''name'', dict_get flattened_data ''user_name'' (PStr '''')),
                      (''email'', dict_get flattened_data ''user_email'' (PStr ''''))])
              unified_data;
          unified_data =
            dict_set ''metadata''
              (PDict [(''version'', dict_get flattened_data ''metadata_version'' (PStr '''')),
                      (''format'', PStr ''unified''),
                      (''encoding'', dict_get flattened_data ''metadata_encoding'' (PStr ''''))])
              unified_data;
          unified_data = dict_set ''items'' (PList []) unified_data
      in case map_of flattened_data ''items'' of
           Some (PList item_strs) \<Rightarrow>
             (case items_loop [] item_strs of
                Inl e \<Rightarrow> Inl e
              | Inr items \<Rightarrow> Inr (dict_set ''items'' (PList items) unified_data))
         | _ \<Rightarrow> Inr unified_data)"

section \<open>The nested converter\<close>

text \<open>
  \<^verbatim>\<open>json.dumps\<close> and \<^verbatim>\<open>json.loads\<close> are modelled on the document a text stands for, not on its
  characters: \<^verbatim>\<open>dumps\<close> maps a value to its document, \<^verbatim>\<open>loads\<close> builds a value from a
  document.
\<close>

datatype json =
    JNull
  | JBool bool
  | JInt int
  | JFloat pyfloat
  | JString string
  | JArray "json list"
  | JObject "(string \<times> json) list"

primrec json_dumps :: "pyval \<Rightarrow> json" where
  "json_dumps PNone = JNull"
| "json_dumps (PBool b) = JBool b"
| "json_dumps (PInt n) = JInt n"
| "json_dumps (PFloat x) = JFloat x"
| "json_dumps (PStr s) = JString s"
| "json_dumps (PList xs) = JArray (map json_dumps xs)"
| "json_dumps (PDict kvs) = JObject (map (map_prod id json_dumps) kvs)"

primrec json_loads :: "json \<Rightarrow> pyval" where
  "json_loads JNull = PNone"
| "json_loads (JBool b) = PBool b"
| "json_loads (JInt n) = PInt n"
| "json_loads (JFloat x) = PFloat x"
| "json_loads (JString s) = PStr s"
| "json_loads (JArray js) = PList (map json_loads js)"
| "json_loads (JObject kjs) = PDict (map (map_prod id json_loads) kjs)"

text \<open>
  \<^verbatim>\<open>convert_nested_to_unified\<close>. \<^verbatim>\<open>json.loads\<close> may return a value of any kind, and
  \<^verbatim>\<open>'metadata' in unified_data\<close> is a key test only on a dict; on the dump of a dict the last
  branch is never taken.
\<close>

definition convert_nested_to_unified :: "pydict \<Rightarrow> py_error + pydict" where
  "convert_nested_to_unified nested_data =
     (case json_loads (json_dumps (PDict nested_data)) of
        PDict unified_data \<Rightarrow>
          (case map_of unified_data ''metadata'' of
             Some (PDict metadata) \<Rightarrow>
               Inr (dict_set ''metadata''
                      (PDict (dict_set ''format'' (PStr ''unified'') metadata)) unified_data)
           | _ \<Rightarrow> Inr unified_data)
      | _ \<Rightarrow> Inl TypeError)"

definition is_str :: "pyval \<Rightarrow> bool" where
  "is_str v = (case v of PStr s \<Rightarrow> True | _ \<Rightarrow> False)"

section \<open>Containers in a store\<close>

text \<open>
  Whether a result shares a list or a dict with the input cannot be seen on values. For
  that the converters are modelled a second time, on a store of containers: a value is a
  scalar or the address of a container, a container is a list or a dict of values, and the
  store is the list of all containers, the address being the index. Allocation appends to
  the store, so the containers that existed before a call are a prefix of the store after
  it. The functions with the suffix \<open>_h\<close> are the converters on the store.
\<close>

type_synonym addr = nat

datatype val =
    VNone
  | VBool bool
  | VInt int
  | VFloat pyfloat
  | VStr string
  | VRef addr

datatype obj = OList "val list" | ODict "(string \<times> val) list"

type_synonym store = "obj list"

definition store_get :: "store \<Rightarrow> addr \<Rightarrow> obj option" where
  "store_get h a = (if a < length h then Some (h ! a) else None)"

text \<open>
  \<^verbatim>\<open>json.dumps\<close> reads the containers reachable from a value. The markers are the containers
  being encoded: meeting one of them again is a circular reference, a \<^verbatim>\<open>ValueError\<close>. An
  address without a container does not occur in a Python store; the model answers
  \<open>NoObject\<close>. \<^verbatim>\<open>json.loads\<close> builds every container of the document anew.
\<close>

function dumps_h :: "store \<Rightarrow> addr list \<Rightarrow> val \<Rightarrow> py_error + json"
  and dumps_list :: "store \<Rightarrow> addr list \<Rightarrow> val list \<Rightarrow> py_error + json list"
  and dumps_fields :: "store \<Rightarrow> addr list \<Rightarrow> (string \<times> val) list
                        \<Rightarrow> py_error + (string \<times> json) list" where
  "dumps_h h markers VNone = Inr JNull"
| "dumps_h h markers (VBool b) = Inr (JBool b)"
| "dumps_h h markers (VInt n) = Inr (JInt n)"
| "dumps_h h markers (VFloat x) = Inr (JFloat x)"
| "dumps_h h markers (VStr s) = Inr (JString s)"
| "dumps_h h markers (VRef a) =
     (if a \<in> set markers then Inl ValueError
      else (case store_get h a of
              None \<Rightarrow> Inl NoObject
            | Some (OList vs) \<Rightarrow>
                (case dumps_list h (a # markers) vs of
                   Inl e \<Rightarrow> Inl e
                 | Inr js \<Rightarrow> Inr (JArray js))
            | Some (ODict kvs) \<Rightarrow>
                (case dumps_fields h (a # markers) kvs of
                   Inl e \<Rightarrow> Inl e
                 | Inr kjs \<Rightarrow> Inr (JObject kjs))))"
| "dumps_list h markers [] = Inr []"
| "dumps_list h markers (v # vs) =
     (case dumps_h h markers v of
        Inl e \<Rightarrow> Inl e
      | Inr j \<Rightarrow>
          (case dumps_list h markers vs of
             Inl e \<Rightarrow> Inl e
           | Inr js \<Rightarrow> Inr (j # js)))"
| "dumps_fields h markers [] = Inr []"
| "dumps_fields h markers ((k, v) # kvs) =
     (case dumps_h h markers v of
        Inl e \<Rightarrow> Inl e
      | Inr j \<Rightarrow>
          (case dumps_fields h markers kvs of
             Inl e \<Rightarrow> Inl e
           | Inr kjs \<Rightarrow> Inr ((k, j) # kjs)))"
  by pat_completeness auto
termination
proof (relation "inv_image (less_than <*lex*> less_than)
    (\<lambda>x. case x of
       Inl (h, markers, v) \<Rightarrow> (card ({..<length h} - set markers), 0)
     | Inr (Inl (h, markers, vs)) \<Rightarrow> (card ({..<length h} - set markers), Suc (length vs))
     | Inr (Inr (h, markers, kvs)) \<Rightarrow> (card ({..<length h} - set markers), Suc (length kvs)))",
    goal_cases)
  case 1
  show ?case by (intro wf_inv_image wf_lex_prod wf_less_than)
next
  case (2 h markers a x2 x1)
  then have "a < length h" by (simp add: store_get_def split: if_splits)
  with 2 have "{..<length h} - set (a # markers) \<subset> {..<length h} - set markers" by auto
  then have "card ({..<length h} - set (a # markers)) < card ({..<length h} - set markers)"
    by (intro psubset_card_mono) auto
  then show ?case by simp
next
  case (3 h markers a x2 x2a)
  then have "a < length h" by (simp add: store_get_def split: if_splits)
  with 3 have "{..<length h} - set (a # markers) \<subset> {..<length h} - set markers" by auto
  then have "card ({..<length h} - set (a # markers)) < card ({..<length h} - set markers)"
    by (intro psubset_card_mono) auto
  then show ?case by simp
qed simp_all

fun loads_h :: "json \<Rightarrow> store \<Rightarrow> store \<times> val"
  and loads_list :: "json list \<Rightarrow> store \<Rightarrow> store \<times> val list"
  and loads_fields :: "(string \<times> json) list \<Rightarrow> store \<Rightarrow> store \<times> (string \<times> val) list" where
  "loads_h JNull h = (h, VNone)"
| "loads_h (JBool b) h = (h, VBool b)"
| "loads_h (JInt n) h = (h, VInt n)"
| "loads_h (JFloat x) h = (h, VFloat x)"
| "loads_h (JString s) h = (h, VStr s)"
| "loads_h (JArray js) h =
     (case loads_list js h of (h1, vs) \<Rightarrow> (h1 @ [OList vs], VRef (length h1)))"
| "loads_h (JObject kjs) h =
     (case loads_fields kjs h of (h1, kvs) \<Rightarrow> (h1 @ [ODict kvs], VRef (length h1)))"
| "loads_list [] h = (h, [])"
| "loads_list (j # js) h =
     (case loads_h j h of (h1, v) \<Rightarrow>
        (case loads_list js h1 of (h2, vs) \<Rightarrow> (h2, v # vs)))"
| "loads_fields [] h = (h, [])"
| "loads_fields ((k, j) # kjs) h =
     (case loads_h j h of (h1, v) \<Rightarrow>
        (case loads_fields kjs h1 of (h2, kvs) \<Rightarrow> (h2, (k, v) # kvs)))"

text \<open>
  \<^verbatim>\<open>d[k] = v\<close> and \<^verbatim>\<open>l.append(v)\<close> on the container at an address. The converters apply them
  to dicts and lists they have just found or created; at any other address the store is
  left as it is.
\<close>

definition store_setitem :: "store \<Rightarrow> addr \<Rightarrow> string \<Rightarrow> val \<Rightarrow> store" where
  "store_setitem h a k v =
     (case store_get h a of
        Some (ODict d) \<Rightarrow> h[a := ODict (dict_set k v d)]
      | _ \<Rightarrow> h)"

definition store_append :: "store \<Rightarrow> addr \<Rightarrow> val \<Rightarrow> store" where
  "store_append h a v =
     (case store_get h a of
        Some (OList vs) \<Rightarrow> h[a := OList (vs @ [v])]
      | _ \<Rightarrow> h)"

text \<open>
  The converters on the store take the address of the input and return the store after
  the call with the address of the result. \<^verbatim>\<open>'metadata' in unified_data\<close> on a list is a
  search for the string, and \<^verbatim>\<open>unified_data['metadata']\<close> on a list raises \<^verbatim>\<open>TypeError\<close>;
  \<^verbatim>\<open>flattened_data.get\<close> on a list raises \<^verbatim>\<open>AttributeError\<close>. The copy of a container is a
  container, so the last branch of the nested converter is never taken. The flattened
  converter never writes to the input dict, so its fields are read once, as \<open>fd\<close>.
\<close>

definition convert_nested_to_unified_h :: "store \<Rightarrow> addr \<Rightarrow> py_error + store \<times> addr" where
  "convert_nested_to_unified_h h nested_data =
     (case dumps_h h [] (VRef nested_data) of
        Inl e \<Rightarrow> Inl e
      | Inr doc \<Rightarrow>
          (case loads_h doc h of
             (h1, VRef unified_data) \<Rightarrow>
               (case store_get h1 unified_data of
                  Some (ODict d) \<Rightarrow>
                    (case map_of d ''metadata'' of
                       Some (VRef metadata) \<Rightarrow>
                         (case store_get h1 metadata of
                            Some (ODict md) \<Rightarrow>
                              Inr (store_setitem h1 metadata ''format'' (VStr ''unified''),
                                   unified_data)
                          | _ \<Rightarrow> Inr (h1, unified_data))
                     | _ \<Rightarrow> Inr (h1, unified_data))
                | Some (OList vs) \<Rightarrow>
                    if VStr ''metadata'' \<in> set vs then Inl TypeError
                    else Inr (h1, unified_data)
                | None \<Rightarrow> Inl NoObject)
           | (h1, _) \<Rightarrow> Inl TypeError))"

fun items_loop_h :: "store \<Rightarrow> addr \<Rightarrow> val list \<Rightarrow> py_error + store" where
  "items_loop_h h items [] = Inr h"
| "items_loop_h h items (item_str # rest) =
     (case item_str of
        VStr s \<Rightarrow>
          (let parts = py_split CHR '':'' s
           in if length parts = 3
              then (case py_int (parts ! 0) of
                      None \<Rightarrow> Inl ValueError
                    | Some n \<Rightarrow>
                        (let item_obj = length h;
                             h = h @ [ODict [(''id'', VInt n),
                                             (''title'', VStr (parts ! 1)),
                                             (''active'', VBool (py_lower (parts ! 2) = ''true''))]]
                         in items_loop_h (store_append h items (VRef item_obj)) items rest))
              else items_loop_h h items rest)
      | _ \<Rightarrow> Inl AttributeError)"

definition convert_flattened_to_unified_h :: "store \<Rightarrow> addr \<Rightarrow> py_error + store \<times> addr" where
  "convert_flattened_to_unified_h h flattened_data =
     (case store_get h flattened_data of
        None \<Rightarrow> Inl NoObject
      | Some (OList vs) \<Rightarrow> Inl AttributeError
      | Some (ODict fd) \<Rightarrow>
          (let unified_data = length h;
               h = h @ [ODict []];
               h = store_setitem h unified_data ''message'' (dict_get fd ''message'' (VStr ''''));
               h = store_setitem h unified_data ''timestamp'' (dict_get fd ''timestamp'' (VStr ''''));
               user = length h;
               h = h @ [ODict [(''id'', dict_get fd ''user_id'' VNone),
                               (''name'', dict_get fd ''user_name'' (VStr '''')),
                               (''email'', dict_get fd ''user_email'' (VStr ''''))]];
               h = store_setitem h unified_data ''user'' (VRef user);
               metadata = length h;
               h = h @ [ODict [(''version'', dict_get fd ''metadata_version'' (VStr '''')),
                               (''format'', VStr ''unified''),
                               (''encoding'', dict_get fd ''metadata_encoding'' (VStr ''''))]];
               h = store_setitem h unified_data ''metadata'' (VRef metadata);
               items = length h;
               h = h @ [OList []];
               h = store_setitem h unified_data ''items'' (VRef items)
           in case map_of fd ''items'' of
                Some (VRef l) \<Rightarrow>
                  (case store_get h l of
                     Some (OList item_strs) \<Rightarrow>
                       (case items_loop_h h items item_strs of
                          Inl e \<Rightarrow> Inl e
                        | Inr h' \<Rightarrow> Inr (h', unified_data))
                   | _ \<Rightarrow> Inr (h, unified_data))
              | _ \<Rightarrow> Inr (h, unified_data)))"

text \<open>
  The containers reachable from an address; a store without dangling addresses is closed.
  \<open>new_refs_ok n S h\<close>: the containers at addresses from \<open>n\<close> on refer only to such
  containers or to addresses in \<open>S\<close>. \<open>extends h S h'\<close>: the store \<open>h'\<close> is \<open>h\<close>, unchanged,
  followed by containers that refer to each other or to \<open>S\<close>. The scalar keys are the
  seven keys whose values the flattened converter stores in its result as they are.
\<close>

definition obj_vals :: "obj \<Rightarrow> val list" where
  "obj_vals ob = (case ob of OList vs \<Rightarrow> vs | ODict kvs \<Rightarrow> map snd kvs)"

inductive_set reach :: "store \<Rightarrow> addr \<Rightarrow> addr set" for h :: store and a :: addr where
  root: "a \<in> reach h a"
| step: "b \<in> reach h a \<Longrightarrow> b < length h \<Longrightarrow> VRef c \<in> set (obj_vals (h ! b)) \<Longrightarrow> c \<in> reach h a"

definition val_in :: "store \<Rightarrow> val \<Rightarrow> bool" where
  "val_in h v = (case v of VRef c \<Rightarrow> c < length h | _ \<Rightarrow> True)"

definition closed :: "store \<Rightarrow> bool" where
  "closed h = list_all (\<lambda>ob. list_all (val_in h) (obj_vals ob)) h"

definition new_refs_ok :: "nat \<Rightarrow> addr set \<Rightarrow> store \<Rightarrow> bool" where
  "new_refs_ok n S h =
     (\<forall>b c. n \<le> b \<longrightarrow> b < length h \<longrightarrow> VRef c \<in> set (obj_vals (h ! b)) \<longrightarrow>
            (n \<le> c \<and> c < length h) \<or> c \<in> S)"

definition extends :: "store \<Rightarrow> addr set \<Rightarrow> store \<Rightarrow> bool" where
  "extends h S h' =
     (take (length h) h' = h \<and> length h \<le> length h' \<and> new_refs_ok (length h) S h')"

definition scalar_keys :: "string list" where
  "scalar_keys = [''message'', ''timestamp'', ''user_id'', ''user_name'', ''user_email'',
                  ''metadata_version'', ''metadata_encoding'']"

definition passed_refs :: "(string \<times> val) list \<Rightarrow> addr set" where
  "passed_refs fd = {c. \<exists>k \<in> set scalar_keys. map_of fd k = Some (VRef c)}"

section \<open>Facts about dicts, strings and the document round trip\<close>

lemma map_of_dict_set_same: "map_of (dict_set k v d) k = Some v"
  by (simp add: dict_set_def update_conv')

lemma map_of_dict_set_other: "k' \<noteq> k \<Longrightarrow> map_of (dict_set k v d) k' = map_of d k'"
  by (simp add: dict_set_def update_conv')

lemma dict_set_twice: "dict_set k v (dict_set k w d) = dict_set k v d"
  by (simp add: dict_set_def)

lemma json_roundtrip: "json_loads (json_dumps v) = v"
  by (induction v) (auto simp: prod.map_comp intro!: map_idI)

lemma json_roundtrip_dict: "json_loads (json_dumps (PDict d)) = PDict d"
  by (rule json_roundtrip)

lemma py_split_colon_examples:
  "py_split CHR '':'' ''1:Task A:true'' = [''1'', ''Task A'', ''true'']"
  "py_split CHR '':'' ''2:Task B:false'' = [''2'', ''Task B'', ''false'']"
  "py_split CHR '':'' ''bad:item'' = [''bad'', ''item'']"
  "py_split CHR '':'' ''x:Task:true'' = [''x'', ''Task'', ''true'']"
  by simp_all

lemma py_int_examples:
  "py_int ''1'' = Some 1"
  "py_int ''2'' = Some 2"
  "py_int ''x'' = None"
  by (simp_all add: py_int_def py_sign_def py_isspace_def digit_val_def)

lemma py_lower_examples:
  "py_lower ''true'' = ''true''"
  "py_lower ''false'' = ''false''"
  by (simp_all add: py_lower_def py_lower_char_def)

section \<open>Concrete conversions\<close>

text \<open>
  C1. The flattened record with message \<open>hi\<close>, timestamp \<open>t1\<close>, user 5, Ann, \<open>a@x.com\<close>,
  metadata version 1.0 and encoding utf8, and the items \<open>1:Task A:true\<close> and
  \<open>2:Task B:false\<close> converts to the unified record with the same scalars, the user and
  metadata grouped, format \<open>unified\<close>, and the two items parsed, in the order of the input.
\<close>

theorem C1_flattened_example:
  "convert_flattened_to_unified
     [(''message'', PStr ''hi''), (''timestamp'', PStr ''t1''),
      (''user_id'', PInt 5), (''user_name'', PStr ''Ann''), (''user_email'', PStr ''a@x.com''),
      (''metadata_version'', PStr ''1.0''), (''metadata_encoding'', PStr ''utf8''),
      (''items'', PList [PStr ''1:Task A:true'', PStr ''2:Task B:false''])]
   = Inr [(''message'', PStr ''hi''), (''timestamp'', PStr ''t1''),
          (''user'', PDict [(''id'', PInt 5), (''name'', PStr ''Ann''),
                            (''email'', PStr ''a@x.com'')]),
          (''metadata'', PDict [(''version'', PStr ''1.0''), (''format'', PStr ''unified''),
                                (''encoding'', PStr ''utf8'')]),
          (''items'', PList [PDict [(''id'', PInt 1), (''title'', PStr ''Task A''),
                                    (''active'', PBool True)],
                             PDict [(''id'', PInt 2), (''title'', PStr ''Task B''),
                                    (''active'', PBool False)]])]"
  by (simp add: convert_flattened_to_unified_def dict_get_def dict_set_def
      py_split_colon_examples py_int_examples py_lower_examples del: py_split.simps)

text \<open>
  C7. The empty record converts, without an error, to the record of the defaults: empty
  strings, a user id of \<^verbatim>\<open>None\<close>, format \<open>unified\<close> and no items.
\<close>

theorem C7_empty_record:
  "convert_flattened_to_unified []
   = Inr [(''message'', PStr ''''), (''timestamp'', PStr ''''),
          (''user'', PDict [(''id'', PNone), (''name'', PStr ''''), (''email'', PStr '''')]),
          (''metadata'', PDict [(''version'', PStr ''''), (''format'', PStr ''unified''),
                                (''encoding'', PStr '''')]),
          (''items'', PList [])]"
  by (simp add: convert_flattened_to_unified_def dict_get_def dict_set_def)

section \<open>The nested converter on values\<close>


text \<open>
  C4. For every dict \<open>r\<close> whose \<open>metadata\<close> is a dict, the nested converter succeeds with a
  result \<open>u\<close> on which it is the identity (twice is once); the \<open>format\<close> of the metadata of
  \<open>u\<close> is \<open>unified\<close>; and \<open>u\<close> is the same whatever value \<open>x\<close> the field \<open>metadata.format\<close> of
  the input had.
\<close>

theorem C4_nested_idempotent:
  assumes "map_of r ''metadata'' = Some (PDict md)"
  shows "\<exists>u md'. convert_nested_to_unified r = Inr u
           \<and> convert_nested_to_unified u = Inr u
           \<and> map_of u ''metadata'' = Some (PDict md')
           \<and> map_of md' ''format'' = Some (PStr ''unified'')
           \<and> convert_nested_to_unified
                (dict_set ''metadata'' (PDict (dict_set ''format'' x md)) r) = Inr u"
  using assms
  by (simp add: convert_nested_to_unified_def json_roundtrip_dict map_of_dict_set_same
      dict_set_twice del: json_dumps.simps)

theorem C4_nested_idempotent_witness:
  "map_of [(''message'', PStr ''hi''), (''metadata'', PDict [(''format'', PStr ''nested'')])]
     ''metadata'' = Some (PDict [(''format'', PStr ''nested'')])
   \<and> (\<exists>u md'.
         convert_nested_to_unified
           [(''message'', PStr ''hi''), (''metadata'', PDict [(''format'', PStr ''nested'')])]
           = Inr u
         \<and> convert_nested_to_unified u = Inr u
         \<and> map_of u ''metadata'' = Some (PDict md')
         \<and> map_of md' ''format'' = Some (PStr ''unified'')
         \<and> convert_nested_to_unified
              (dict_set ''metadata''
                 (PDict (dict_set ''format'' (PInt 7) [(''format'', PStr ''nested'')]))
                 [(''message'', PStr ''hi''),
                  (''metadata'', PDict [(''format'', PStr ''nested'')])]) = Inr u)"
proof -
  have h: "map_of [(''message'', PStr ''hi''),
                   (''metadata'', PDict [(''format'', PStr ''nested'')])] ''metadata''
           = Some (PDict [(''format'', PStr ''nested'')])"
    by simp
  show ?thesis
    using h C4_nested_idempotent [OF h, of "PInt 7"] by blast
qed

section \<open>The items of the flattened converter\<close>

lemma items_loop_skip:
  "length (py_split CHR '':'' s) \<noteq> 3 \<Longrightarrow>
   items_loop acc (pre @ PStr s # post) = items_loop acc (pre @ post)"
  by (induction pre arbitrary: acc) (auto simp: Let_def split: pyval.splits option.splits)

lemma items_loop_bad_id:
  "\<forall>x\<in>set pre. is_str x \<Longrightarrow> length (py_split CHR '':'' s) = 3 \<Longrightarrow>
   py_int (py_split CHR '':'' s ! 0) = None \<Longrightarrow>
   items_loop acc (pre @ PStr s # post) = Inl ValueError"
  by (induction pre arbitrary: acc)
     (auto simp: Let_def is_str_def split: pyval.splits option.splits)

lemma items_loop_bad_id_fails:
  "length (py_split CHR '':'' s) = 3 \<Longrightarrow> py_int (py_split CHR '':'' s ! 0) = None \<Longrightarrow>
   items_loop acc (pre @ PStr s # post) = Inl ValueError
   \<or> items_loop acc (pre @ PStr s # post) = Inl AttributeError"
proof (induction pre arbitrary: acc)
  case Nil
  then show ?case by simp
next
  case (Cons p pre)
  show ?case
  proof (cases p)
    case (PStr t)
    show ?thesis
    proof (cases "length (py_split CHR '':'' t) = 3")
      case False
      with PStr Cons.IH [OF Cons.prems, of acc] show ?thesis by simp
    next
      case three: True
      show ?thesis
      proof (cases "py_int (py_split CHR '':'' t ! 0)")
        case None
        with three PStr show ?thesis by simp
      next
        case (Some n)
        with three PStr Cons.IH [OF Cons.prems] show ?thesis by (simp add: Let_def)
      qed
    qed
  qed simp_all
qed

lemma items_loop_non_str:
  "\<forall>y\<in>set pre. is_str y \<Longrightarrow> \<not> is_str x \<Longrightarrow>
   items_loop acc (pre @ x # post) =
     (if \<exists>s. PStr s \<in> set pre \<and> length (py_split CHR '':'' s) = 3
              \<and> py_int (py_split CHR '':'' s ! 0) = None
      then Inl ValueError else Inl AttributeError)"
proof (induction pre arbitrary: acc)
  case Nil
  then show ?case by (cases x) (simp_all add: is_str_def)
next
  case (Cons p pre)
  from Cons.prems obtain t where p: "p = PStr t" by (cases p) (simp_all add: is_str_def)
  from Cons.prems have rest: "\<forall>y\<in>set pre. is_str y" by simp
  show ?case
  proof (cases "length (py_split CHR '':'' t) = 3")
    case False
    with Cons.IH [OF rest Cons.prems(2)] p show ?thesis by auto
  next
    case three: True
    show ?thesis
    proof (cases "py_int (py_split CHR '':'' t ! 0)")
      case None
      with three p show ?thesis by auto
    next
      case (Some n)
      with three p Cons.IH [OF rest Cons.prems(2)] show ?thesis by (auto simp: Let_def)
    qed
  qed
qed

text \<open>
  C5. An item string whose split at the colons has a number of parts other than 3 is
  dropped: the conversion of a record whose items hold such a string, anywhere in the
  list, is the conversion of the record without it, so it adds no element and raises no
  error. The items \<open>["bad:item"]\<close> give the items \<open>[]\<close>.
\<close>

theorem C5_malformed_item_dropped:
  "(length (py_split CHR '':'' s) \<noteq> 3 \<longrightarrow>
      convert_flattened_to_unified (dict_set ''items'' (PList (pre @ PStr s # post)) d)
      = convert_flattened_to_unified (dict_set ''items'' (PList (pre @ post)) d))
   \<and> convert_flattened_to_unified [(''items'', PList [PStr ''bad:item''])]
     = Inr [(''message'', PStr ''''), (''timestamp'', PStr ''''),
            (''user'', PDict [(''id'', PNone), (''name'', PStr ''''), (''email'', PStr '''')]),
            (''metadata'', PDict [(''version'', PStr ''''), (''format'', PStr ''unified''),
                                  (''encoding'', PStr '''')]),
            (''items'', PList [])]"
  by (simp add: convert_flattened_to_unified_def map_of_dict_set_same map_of_dict_set_other
      dict_get_def items_loop_skip py_split_colon_examples del: py_split.simps)
     (simp add: dict_set_def)

theorem C5_malformed_item_dropped_witness:
  "length (py_split CHR '':'' ''bad:item'') \<noteq> 3
   \<and> convert_flattened_to_unified
        (dict_set ''items'' (PList ([PStr ''1:Task A:true''] @ PStr ''bad:item'' # [])) [])
     = convert_flattened_to_unified
        (dict_set ''items'' (PList ([PStr ''1:Task A:true''] @ [])) [])"
proof -
  have h: "length (py_split CHR '':'' ''bad:item'') \<noteq> 3" by simp
  show ?thesis
    using h C5_malformed_item_dropped [of "''bad:item''" "[PStr ''1:Task A:true'']" "[]" "[]"]
    by blast
qed

text \<open>
  C6, as the spec states it, fails: the loop ends at the first element that raises, and an
  element that is not a string raises \<^verbatim>\<open>AttributeError\<close>. In the items \<open>[5, "x:Task:true"]\<close>
  the string splits into 3 parts and its first part is not an integer, yet the call fails
  with \<^verbatim>\<open>AttributeError\<close>, raised at \<open>5\<close>, and not with \<^verbatim>\<open>ValueError\<close> (the spec's
  \<open>FormatError\<close>).
\<close>

theorem C6_bad_id_after_non_string_counterexample:
  "length (py_split CHR '':'' ''x:Task:true'') = 3
   \<and> py_int (py_split CHR '':'' ''x:Task:true'' ! 0) = None
   \<and> convert_flattened_to_unified [(''items'', PList [PInt 5, PStr ''x:Task:true''])]
     = Inl AttributeError"
  by (simp add: convert_flattened_to_unified_def py_int_examples)

text \<open>
  C6, amended. An item string that splits into exactly 3 parts whose first part is not an
  integer makes the whole conversion fail, wherever it stands in the items: nothing in the
  converter catches the error. When the elements before it are strings, as the items of a
  flattened record are, the error is \<^verbatim>\<open>ValueError\<close> (the spec's \<open>FormatError\<close>), whatever
  follows it; otherwise it is \<^verbatim>\<open>ValueError\<close> or the \<^verbatim>\<open>AttributeError\<close> of an earlier element that
  is not a string. The items \<open>["x:Task:true"]\<close> fail with \<^verbatim>\<open>ValueError\<close>.
\<close>

theorem C6_bad_id_raises:
  "(map_of d ''items'' = Some (PList (pre @ PStr s # post)) \<longrightarrow>
    length (py_split CHR '':'' s) = 3 \<longrightarrow>
    py_int (py_split CHR '':'' s ! 0) = None \<longrightarrow>
    (convert_flattened_to_unified d = Inl ValueError
     \<or> convert_flattened_to_unified d = Inl AttributeError)
    \<and> ((\<forall>x\<in>set pre. is_str x) \<longrightarrow> convert_flattened_to_unified d = Inl ValueError))
   \<and> convert_flattened_to_unified [(''items'', PList [PStr ''x:Task:true''])] = Inl ValueError"
proof (intro conjI impI)
  assume items: "map_of d ''items'' = Some (PList (pre @ PStr s # post))"
    and three: "length (py_split CHR '':'' s) = 3"
    and bad: "py_int (py_split CHR '':'' s ! 0) = None"
  have fails: "convert_flattened_to_unified d = Inl e"
    if "items_loop [] (pre @ PStr s # post) = Inl e" for e
    using items that by (simp add: convert_flattened_to_unified_def del: py_split.simps)
  from items_loop_bad_id_fails [OF three bad, of "[]" pre post]
  show "convert_flattened_to_unified d = Inl ValueError
        \<or> convert_flattened_to_unified d = Inl AttributeError"
    using fails by blast
  show "convert_flattened_to_unified d = Inl ValueError" if strs: "\<forall>x\<in>set pre. is_str x"
    using items_loop_bad_id [OF strs three bad, of "[]" post] by (rule fails)
next
  show "convert_flattened_to_unified [(''items'', PList [PStr ''x:Task:true''])]
        = Inl ValueError"
    by (simp add: convert_flattened_to_unified_def py_split_colon_examples py_int_examples
        del: py_split.simps)
qed

theorem C6_bad_id_raises_witness:
  "map_of [(''message'', PStr ''hi''),
           (''items'', PList ([PStr ''1:Task A:true''] @ PStr ''x:Task:true'' # [PInt 0]))]
     ''items''
   = Some (PList ([PStr ''1:Task A:true''] @ PStr ''x:Task:true'' # [PInt 0]))
   \<and> list_all is_str [PStr ''1:Task A:true'']
   \<and> length (py_split CHR '':'' ''x:Task:true'') = 3
   \<and> py_int (py_split CHR '':'' ''x:Task:true'' ! 0) = None
   \<and> convert_flattened_to_unified
        [(''message'', PStr ''hi''),
         (''items'', PList ([PStr ''1:Task A:true''] @ PStr ''x:Task:true'' # [PInt 0]))]
      = Inl ValueError"
proof -
  have h1: "map_of [(''message'', PStr ''hi''),
              (''items'', PList ([PStr ''1:Task A:true''] @ PStr ''x:Task:true'' # [PInt 0]))]
              ''items''
            = Some (PList ([PStr ''1:Task A:true''] @ PStr ''x:Task:true'' # [PInt 0]))"
    by simp
  have h2: "\<forall>x\<in>set [PStr ''1:Task A:true'']. is_str x" by (simp add: is_str_def)
  have h3: "length (py_split CHR '':'' ''x:Task:true'') = 3" by simp
  have h4: "py_int (py_split CHR '':'' ''x:Task:true'' ! 0) = None"
    by (simp add: py_int_examples)
  have h5: "list_all is_str [PStr ''1:Task A:true'']" by (simp add: is_str_def)
  show ?thesis
    using h1 h2 h3 h4 h5
      C6_bad_id_raises [of "[(''message'', PStr ''hi''),
              (''items'', PList ([PStr ''1:Task A:true''] @ PStr ''x:Task:true'' # [PInt 0]))]"
          "[PStr ''1:Task A:true'']" "''x:Task:true''" "[PInt 0]"]
    by blast
qed

text \<open>
  C8, as the spec states it, fails: the loop calls \<^verbatim>\<open>split\<close> on every element, and an element
  that is not a string has no \<^verbatim>\<open>split\<close>. The items \<open>[5]\<close> raise \<^verbatim>\<open>AttributeError\<close>.
\<close>

theorem C8_non_string_item_counterexample:
  "convert_flattened_to_unified [(''items'', PList [PInt 5])] = Inl AttributeError"
  by (simp add: convert_flattened_to_unified_def)

text \<open>
  C8, amended. When the items hold an element that is not a string, the conversion does
  not succeed: at the first such element it raises \<^verbatim>\<open>AttributeError\<close>, unless one of the
  strings before it has three parts and an id that is not an integer, which raises
  \<^verbatim>\<open>ValueError\<close> first.
\<close>

theorem C8_non_string_item_raises:
  assumes "map_of d ''items'' = Some (PList (pre @ x # post))"
    and "\<forall>y\<in>set pre. is_str y"
    and "\<not> is_str x"
  shows "convert_flattened_to_unified d =
           (if \<exists>s. PStr s \<in> set pre \<and> length (py_split CHR '':'' s) = 3
                    \<and> py_int (py_split CHR '':'' s ! 0) = None
            then Inl ValueError else Inl AttributeError)"
  using assms
  by (simp add: convert_flattened_to_unified_def items_loop_non_str del: py_split.simps)
     blast

theorem C8_non_string_item_raises_witness:
  "map_of [(''items'', PList ([PStr ''bad:item''] @ PNone # [PStr ''x:Task:true'']))] ''items''
   = Some (PList ([PStr ''bad:item''] @ PNone # [PStr ''x:Task:true'']))
   \<and> list_all is_str [PStr ''bad:item'']
   \<and> \<not> is_str PNone
   \<and> convert_flattened_to_unified
        [(''items'', PList ([PStr ''bad:item''] @ PNone # [PStr ''x:Task:true'']))]
      = Inl AttributeError"
proof -
  have h1: "map_of [(''items'', PList ([PStr ''bad:item''] @ PNone # [PStr ''x:Task:true'']))]
              ''items''
            = Some (PList ([PStr ''bad:item''] @ PNone # [PStr ''x:Task:true'']))"
    by simp
  have h2: "\<forall>y\<in>set [PStr ''bad:item'']. is_str y" by (simp add: is_str_def)
  have h3: "\<not> is_str PNone" by (simp add: is_str_def)
  have h4: "\<not> (\<exists>s. PStr s \<in> set [PStr ''bad:item''] \<and> length (py_split CHR '':'' s) = 3
                  \<and> py_int (py_split CHR '':'' s ! 0) = None)"
    by simp
  have h5: "list_all is_str [PStr ''bad:item'']" by (simp add: is_str_def)
  show ?thesis
    using h1 h3 h4 h5 C8_non_string_item_raises [OF h1 h2 h3] by simp
qed

section \<open>Shape and dependencies of the flattened converter\<close>

text \<open>
  C9. Whenever the flattened converter returns a record, the record has exactly the keys
  message, timestamp, user, metadata and items; its user is a dict with exactly the keys
  id, name and email; its metadata is a dict with exactly the keys version, format and
  encoding, and the format is \<open>unified\<close>; its items are a list.
\<close>

theorem C9_unified_shape:
  assumes "convert_flattened_to_unified d = Inr out"
  shows "map fst out = [''message'', ''timestamp'', ''user'', ''metadata'', ''items'']
    \<and> (\<exists>i n e. map_of out ''user'' = Some (PDict [(''id'', i), (''name'', n), (''email'', e)]))
    \<and> (\<exists>v e. map_of out ''metadata'' =
           Some (PDict [(''version'', v), (''format'', PStr ''unified''), (''encoding'', e)]))
    \<and> (\<exists>xs. map_of out ''items'' = Some (PList xs))"
  using assms
  by (auto simp: convert_flattened_to_unified_def dict_set_def Let_def
      split: option.splits pyval.splits sum.splits)

theorem C9_unified_shape_witness:
  "convert_flattened_to_unified [(''user_id'', PInt 5), (''items'', PList [PStr ''bad:item''])]
   = Inr [(''message'', PStr ''''), (''timestamp'', PStr ''''),
          (''user'', PDict [(''id'', PInt 5), (''name'', PStr ''''), (''email'', PStr '''')]),
          (''metadata'', PDict [(''version'', PStr ''''), (''format'', PStr ''unified''),
                                (''encoding'', PStr '''')]),
          (''items'', PList [])]
   \<and> map fst [(''message'', PStr ''''), (''timestamp'', PStr ''''),
          (''user'', PDict [(''id'', PInt 5), (''name'', PStr ''''), (''email'', PStr '''')]),
          (''metadata'', PDict [(''version'', PStr ''''), (''format'', PStr ''unified''),
                                (''encoding'', PStr '''')]),
          (''items'', PList [])]
     = [''message'', ''timestamp'', ''user'', ''metadata'', ''items'']"
proof -
  have h: "convert_flattened_to_unified
             [(''user_id'', PInt 5), (''items'', PList [PStr ''bad:item''])]
           = Inr [(''message'', PStr ''''), (''timestamp'', PStr ''''),
               (''user'', PDict [(''id'', PInt 5), (''name'', PStr ''''), (''email'', PStr '''')]),
               (''metadata'', PDict [(''version'', PStr ''''), (''format'', PStr ''unified''),
                                     (''encoding'', PStr '''')]),
               (''items'', PList [])]"
    by (simp add: convert_flattened_to_unified_def dict_get_def dict_set_def
        py_split_colon_examples del: py_split.simps)
  show ?thesis
    using h C9_unified_shape [OF h] by blast
qed

text \<open>
  C10. The flattened converter reads its input only at the keys message, timestamp,
  user_id, user_name, user_email, metadata_version, metadata_encoding and items: two
  records with the same lookup at each of the eight (a value, or absent in both) have the
  same outcome, whatever other keys they hold.
\<close>

theorem C10_only_eight_keys:
  assumes "\<forall>k \<in> {''message'', ''timestamp'', ''user_id'', ''user_name'', ''user_email'',
             ''metadata_version'', ''metadata_encoding'', ''items''}. map_of a k = map_of b k"
  shows "convert_flattened_to_unified a = convert_flattened_to_unified b"
  using assms
  by (simp add: convert_flattened_to_unified_def dict_get_def)

theorem C10_only_eight_keys_witness:
  "list_all (\<lambda>k. map_of [(''secret'', PInt 1), (''message'', PStr ''hi'')] k
                    = map_of [(''message'', PStr ''hi''), (''user'', PDict [])] k)
     [''message'', ''timestamp'', ''user_id'', ''user_name'', ''user_email'',
      ''metadata_version'', ''metadata_encoding'', ''items'']
   \<and> convert_flattened_to_unified [(''secret'', PInt 1), (''message'', PStr ''hi'')]
     = convert_flattened_to_unified [(''message'', PStr ''hi''), (''user'', PDict [])]"
proof -
  have h: "\<forall>k \<in> {''message'', ''timestamp'', ''user_id'', ''user_name'', ''user_email'',
             ''metadata_version'', ''metadata_encoding'', ''items''}.
      map_of [(''secret'', PInt 1), (''message'', PStr ''hi'')] k
      = map_of [(''message'', PStr ''hi''), (''user'', PDict [])] k"
    by simp
  show ?thesis
    using C10_only_eight_keys [OF h] by simp
qed

section \<open>Containers: what a call changes and what its result shares\<close>

lemma new_refs_ok_append:
  assumes "new_refs_ok n S h"
    and "\<forall>c. VRef c \<in> set (obj_vals ob) \<longrightarrow> (n \<le> c \<and> c \<le> length h) \<or> c \<in> S"
  shows "new_refs_ok n S (h @ [ob])"
  unfolding new_refs_ok_def
proof (intro allI impI)
  fix b c
  assume b: "n \<le> b" "b < length (h @ [ob])" and c: "VRef c \<in> set (obj_vals ((h @ [ob]) ! b))"
  show "(n \<le> c \<and> c < length (h @ [ob])) \<or> c \<in> S"
  proof (cases "b < length h")
    case True
    with b c assms(1) have "(n \<le> c \<and> c < length h) \<or> c \<in> S"
      by (auto simp: new_refs_ok_def nth_append)
    then show ?thesis by auto
  next
    case False
    with b have "b = length h" by simp
    with c assms(2) show ?thesis by (auto simp: less_Suc_eq_le)
  qed
qed

lemma new_refs_ok_update:
  assumes "new_refs_ok n S h"
    and "\<forall>c. VRef c \<in> set (obj_vals ob) \<longrightarrow> (n \<le> c \<and> c < length h) \<or> c \<in> S"
  shows "new_refs_ok n S (h[a := ob])"
proof (cases "a < length h")
  case True
  with assms show ?thesis
    unfolding new_refs_ok_def by (auto simp: nth_list_update split: if_splits)
next
  case False
  with assms(1) show ?thesis by (simp add: list_update_beyond)
qed

lemma loads_grows:
  "loads_h j h = (h', v) \<Longrightarrow> \<exists>ext. h' = h @ ext"
  "loads_list js h = (h', vs) \<Longrightarrow> \<exists>ext. h' = h @ ext"
  "loads_fields kjs h = (h', kvs) \<Longrightarrow> \<exists>ext. h' = h @ ext"
proof (induction j h and js h and kjs h arbitrary: h' v and h' vs and h' kvs
    rule: loads_h_loads_list_loads_fields.induct)
  case (6 js h)
  then show ?case by (fastforce split: prod.splits)
next
  case (7 kjs h)
  then show ?case by (fastforce split: prod.splits)
next
  case (9 j js h)
  then show ?case by (fastforce split: prod.splits)
next
  case (11 k j kjs h)
  then show ?case by (fastforce split: prod.splits)
qed auto

lemma loads_fresh:
  "loads_h j h = (h', v) \<Longrightarrow> n \<le> length h \<Longrightarrow> new_refs_ok n S h \<Longrightarrow>
     new_refs_ok n S h' \<and> (\<forall>c. v = VRef c \<longrightarrow> n \<le> c \<and> c < length h')"
  "loads_list js h = (h', vs) \<Longrightarrow> n \<le> length h \<Longrightarrow> new_refs_ok n S h \<Longrightarrow>
     new_refs_ok n S h' \<and> (\<forall>c. VRef c \<in> set vs \<longrightarrow> n \<le> c \<and> c < length h')"
  "loads_fields kjs h = (h', kvs) \<Longrightarrow> n \<le> length h \<Longrightarrow> new_refs_ok n S h \<Longrightarrow>
     new_refs_ok n S h' \<and> (\<forall>c. VRef c \<in> set (map snd kvs) \<longrightarrow> n \<le> c \<and> c < length h')"
proof (induction j h and js h and kjs h arbitrary: h' v and h' vs and h' kvs
    rule: loads_h_loads_list_loads_fields.induct)
  case (6 js h)
  obtain h1 vs where l: "loads_list js h = (h1, vs)" by (cases "loads_list js h")
  with 6 have ih: "new_refs_ok n S h1" "\<forall>c. VRef c \<in> set vs \<longrightarrow> n \<le> c \<and> c < length h1"
    by auto
  from l obtain ext where "h1 = h @ ext" using loads_grows(2) by blast
  with 6 have len: "n \<le> length h1" by simp
  from ih have "new_refs_ok n S (h1 @ [OList vs])"
    by (intro new_refs_ok_append) (auto simp: obj_vals_def)
  with 6(2) l len show ?case by auto
next
  case (7 kjs h)
  obtain h1 kvs where l: "loads_fields kjs h = (h1, kvs)" by (cases "loads_fields kjs h")
  with 7 have ih: "new_refs_ok n S h1"
    "\<forall>c. VRef c \<in> set (map snd kvs) \<longrightarrow> n \<le> c \<and> c < length h1"
    by auto
  from l obtain ext where "h1 = h @ ext" using loads_grows(3) by blast
  with 7 have len: "n \<le> length h1" by simp
  from ih have "new_refs_ok n S (h1 @ [ODict kvs])"
    by (intro new_refs_ok_append) (auto simp: obj_vals_def)
  with 7(2) l len show ?case by auto
next
  case (9 j js h)
  obtain h1 v where l1: "loads_h j h = (h1, v)" by (cases "loads_h j h")
  obtain h2 vs' where l2: "loads_list js h1 = (h2, vs')" by (cases "loads_list js h1")
  from l1 obtain ext1 where e1: "h1 = h @ ext1" using loads_grows(1) by blast
  from l2 obtain ext2 where e2: "h2 = h1 @ ext2" using loads_grows(2) by blast
  from 9(1) [OF l1 9(4) 9(5)]
  have ih1: "new_refs_ok n S h1" "\<forall>c. v = VRef c \<longrightarrow> n \<le> c \<and> c < length h1" by auto
  from e1 9(4) have "n \<le> length h1" by simp
  from 9(2) [OF l1 [symmetric] l2 this ih1(1)]
  have ih2: "new_refs_ok n S h2" "\<forall>c. VRef c \<in> set vs' \<longrightarrow> n \<le> c \<and> c < length h2" by auto
  from 9(3) l1 l2 have "h' = h2" "vs = v # vs'" by auto
  with ih1 ih2 e2 show ?case by auto
next
  case (11 k j kjs h)
  obtain h1 v where l1: "loads_h j h = (h1, v)" by (cases "loads_h j h")
  obtain h2 kvs' where l2: "loads_fields kjs h1 = (h2, kvs')" by (cases "loads_fields kjs h1")
  from l1 obtain ext1 where e1: "h1 = h @ ext1" using loads_grows(1) by blast
  from l2 obtain ext2 where e2: "h2 = h1 @ ext2" using loads_grows(3) by blast
  from 11(1) [OF l1 11(4) 11(5)]
  have ih1: "new_refs_ok n S h1" "\<forall>c. v = VRef c \<longrightarrow> n \<le> c \<and> c < length h1" by auto
  from e1 11(4) have "n \<le> length h1" by simp
  from 11(2) [OF l1 [symmetric] l2 this ih1(1)]
  have ih2: "new_refs_ok n S h2"
    "\<forall>c. VRef c \<in> set (map snd kvs') \<longrightarrow> n \<le> c \<and> c < length h2" by auto
  from 11(3) l1 l2 have "h' = h2" "kvs = (k, v) # kvs'" by auto
  with ih1 ih2 e2 show ?case by auto
qed auto

lemma reach_new:
  assumes ok: "new_refs_ok n S h'"
    and pre: "n \<le> length h'" "take n h' = h"
    and old: "\<forall>s\<in>S. reach h s \<subseteq> {..<n}"
    and u: "n \<le> u" "u < length h'"
  shows "reach h' u \<subseteq> {n..<length h'} \<union> (\<Union>s\<in>S. reach h s)"
proof
  fix b
  assume "b \<in> reach h' u"
  then show "b \<in> {n..<length h'} \<union> (\<Union>s\<in>S. reach h s)"
  proof (induction rule: reach.induct)
    case root
    with u show ?case by simp
  next
    case (step b c)
    from step.IH show ?case
    proof
      assume "b \<in> {n..<length h'}"
      with ok step.hyps(3) have "(n \<le> c \<and> c < length h') \<or> c \<in> S"
        by (auto simp: new_refs_ok_def)
      then show ?thesis using reach.root [of c h] by auto
    next
      assume "b \<in> (\<Union>s\<in>S. reach h s)"
      then obtain s where s: "s \<in> S" "b \<in> reach h s" by blast
      with old have bn: "b < n" by auto
      with pre have "h ! b = h' ! b" "b < length h" by auto
      with s(2) step.hyps(3) have "c \<in> reach h s" by (auto intro: reach.step)
      with s(1) show ?thesis by blast
    qed
  qed
qed

lemma map_snd_dict_set_subset:
  "set (map snd (dict_set k v d)) \<subseteq> insert v (set (map snd d))"
  unfolding dict_set_def by (induction d) auto

lemma store_setitem_length: "length (store_setitem h a k v) = length h"
  by (simp add: store_setitem_def split: option.splits obj.splits)

lemma store_setitem_take: "n \<le> a \<Longrightarrow> take n (store_setitem h a k v) = take n h"
  by (simp add: store_setitem_def split: option.splits obj.splits)

lemma store_setitem_ok:
  assumes "new_refs_ok n S h" "n \<le> a"
    and "\<forall>c. v = VRef c \<longrightarrow> (n \<le> c \<and> c < length h) \<or> c \<in> S"
  shows "new_refs_ok n S (store_setitem h a k v)"
proof (cases "store_get h a")
  case None
  with assms(1) show ?thesis by (simp add: store_setitem_def)
next
  case (Some ob)
  show ?thesis
  proof (cases ob)
    case (OList vs)
    with Some assms(1) show ?thesis by (simp add: store_setitem_def)
  next
    case (ODict d)
    with Some have a: "a < length h" "h ! a = ODict d"
      by (auto simp: store_get_def split: if_splits)
    have "\<forall>c. VRef c \<in> set (obj_vals (ODict (dict_set k v d))) \<longrightarrow>
            (n \<le> c \<and> c < length h) \<or> c \<in> S"
    proof (intro allI impI)
      fix c
      assume "VRef c \<in> set (obj_vals (ODict (dict_set k v d)))"
      then have "VRef c = v \<or> VRef c \<in> set (map snd d)"
        using map_snd_dict_set_subset [of k v d] by (auto simp: obj_vals_def)
      then show "(n \<le> c \<and> c < length h) \<or> c \<in> S"
      proof
        assume "VRef c = v"
        with assms(3) show ?thesis by auto
      next
        assume "VRef c \<in> set (map snd d)"
        with a assms(1,2) show ?thesis by (auto simp: new_refs_ok_def obj_vals_def)
      qed
    qed
    with assms(1) have "new_refs_ok n S (h[a := ODict (dict_set k v d)])"
      by (rule new_refs_ok_update)
    with Some ODict show ?thesis by (simp add: store_setitem_def)
  qed
qed

lemma convert_nested_h_cases:
  assumes "convert_nested_to_unified_h h a = Inr (h', u)"
  shows "\<exists>doc h1. dumps_h h [] (VRef a) = Inr doc \<and> loads_h doc h = (h1, VRef u)
           \<and> (h' = h1
              \<or> (\<exists>d m. store_get h1 u = Some (ODict d) \<and> map_of d ''metadata'' = Some (VRef m)
                     \<and> h' = store_setitem h1 m ''format'' (VStr ''unified'')))"
proof -
  from assms obtain doc where d: "dumps_h h [] (VRef a) = Inr doc"
    by (cases "dumps_h h [] (VRef a)") (simp_all add: convert_nested_to_unified_h_def)
  obtain h1 v where l: "loads_h doc h = (h1, v)" by (cases "loads_h doc h")
  from assms d l obtain w where v: "v = VRef w"
    by (cases v) (simp_all add: convert_nested_to_unified_h_def)
  from assms d l v obtain ob where ob: "store_get h1 w = Some ob"
    by (cases "store_get h1 w") (simp_all add: convert_nested_to_unified_h_def)
  show ?thesis
  proof (cases ob)
    case (OList vs)
    with assms d l v ob have "h' = h1" "u = w"
      by (simp_all add: convert_nested_to_unified_h_def split: if_splits)
    with d l v show ?thesis by auto
  next
    case (ODict dd)
    with assms d l v ob have r:
      "(case map_of dd ''metadata'' of
          Some (VRef metadata) \<Rightarrow>
            (case store_get h1 metadata of
               Some (ODict md) \<Rightarrow>
                 Inr (store_setitem h1 metadata ''format'' (VStr ''unified''), w)
             | _ \<Rightarrow> Inr (h1, w))
        | _ \<Rightarrow> Inr (h1, w)) = (Inr (h', u) :: py_error + store \<times> addr)"
      by (simp add: convert_nested_to_unified_h_def)
    then have uw: "u = w"
      by (auto split: option.splits val.splits obj.splits)
    from r have "h' = h1 \<or> (\<exists>m. map_of dd ''metadata'' = Some (VRef m)
            \<and> h' = store_setitem h1 m ''format'' (VStr ''unified''))"
      by (auto split: option.splits val.splits obj.splits)
    with d l v ob ODict uw show ?thesis by auto
  qed
qed

lemma convert_nested_h_fresh:
  assumes "convert_nested_to_unified_h h a = Inr (h', u)"
  shows "take (length h) h' = h \<and> length h \<le> u \<and> u < length h' \<and> new_refs_ok (length h) {} h'"
proof -
  from convert_nested_h_cases [OF assms] obtain doc h1 where
    d: "dumps_h h [] (VRef a) = Inr doc" and l: "loads_h doc h = (h1, VRef u)" and
    c: "h' = h1
        \<or> (\<exists>d m. store_get h1 u = Some (ODict d) \<and> map_of d ''metadata'' = Some (VRef m)
               \<and> h' = store_setitem h1 m ''format'' (VStr ''unified''))"
    by blast
  from l obtain ext where ext: "h1 = h @ ext" using loads_grows(1) by blast
  have "new_refs_ok (length h) {} h" by (simp add: new_refs_ok_def)
  with l have ok1: "new_refs_ok (length h) {} h1"
    and u: "length h \<le> u" "u < length h1"
    using loads_fresh(1) [of doc h h1 "VRef u" "length h" "{}"] by auto
  from c show ?thesis
  proof
    assume "h' = h1"
    with ext ok1 u show ?thesis by simp
  next
    assume "\<exists>d m. store_get h1 u = Some (ODict d) \<and> map_of d ''metadata'' = Some (VRef m)
               \<and> h' = store_setitem h1 m ''format'' (VStr ''unified'')"
    then obtain dd m where dd: "store_get h1 u = Some (ODict dd)"
      and m: "map_of dd ''metadata'' = Some (VRef m)"
      and h': "h' = store_setitem h1 m ''format'' (VStr ''unified'')"
      by blast
    from dd have "h1 ! u = ODict dd" by (auto simp: store_get_def split: if_splits)
    moreover from m have "(''metadata'', VRef m) \<in> set dd" by (rule map_of_SomeD)
    then have "VRef m \<in> set (map snd dd)" by force
    ultimately have "VRef m \<in> set (obj_vals (h1 ! u))" by (simp add: obj_vals_def)
    with ok1 u have mn: "length h \<le> m" unfolding new_refs_ok_def by blast
    with ok1 h' have "new_refs_ok (length h) {} h'" by (simp add: store_setitem_ok)
    with mn h' ext u show ?thesis by (simp add: store_setitem_take store_setitem_length)
  qed
qed

lemma extends_refl: "extends h S h"
  by (simp add: extends_def new_refs_ok_def)

lemma extends_alloc:
  assumes "extends h S h1"
    and "\<forall>c. VRef c \<in> set (obj_vals ob) \<longrightarrow> (length h \<le> c \<and> c \<le> length h1) \<or> c \<in> S"
  shows "extends h S (h1 @ [ob])"
  using assms by (simp add: extends_def new_refs_ok_append)

lemma store_append_length: "length (store_append h a v) = length h"
  by (simp add: store_append_def split: option.splits obj.splits)

lemma store_append_take: "n \<le> a \<Longrightarrow> take n (store_append h a v) = take n h"
  by (simp add: store_append_def split: option.splits obj.splits)

lemma store_append_ok:
  assumes "new_refs_ok n S h" "n \<le> a"
    and "\<forall>c. v = VRef c \<longrightarrow> (n \<le> c \<and> c < length h) \<or> c \<in> S"
  shows "new_refs_ok n S (store_append h a v)"
proof (cases "store_get h a")
  case None
  with assms(1) show ?thesis by (simp add: store_append_def)
next
  case (Some ob)
  show ?thesis
  proof (cases ob)
    case (ODict d)
    with Some assms(1) show ?thesis by (simp add: store_append_def)
  next
    case (OList vs)
    with Some have a: "a < length h" "h ! a = OList vs"
      by (auto simp: store_get_def split: if_splits)
    with assms have "\<forall>c. VRef c \<in> set (obj_vals (OList (vs @ [v]))) \<longrightarrow>
            (n \<le> c \<and> c < length h) \<or> c \<in> S"
      by (auto simp: new_refs_ok_def obj_vals_def)
    with assms(1) have "new_refs_ok n S (h[a := OList (vs @ [v])])"
      by (rule new_refs_ok_update)
    with Some OList show ?thesis by (simp add: store_append_def)
  qed
qed

lemma extends_setitem:
  assumes "extends h S h1" "length h \<le> a"
    and "\<forall>c. v = VRef c \<longrightarrow> (length h \<le> c \<and> c < length h1) \<or> c \<in> S"
  shows "extends h S (store_setitem h1 a k v)"
  using assms by (simp add: extends_def store_setitem_ok store_setitem_take store_setitem_length)

lemma extends_append:
  assumes "extends h S h1" "length h \<le> a"
    and "\<forall>c. v = VRef c \<longrightarrow> (length h \<le> c \<and> c < length h1) \<or> c \<in> S"
  shows "extends h S (store_append h1 a v)"
  using assms by (simp add: extends_def store_append_ok store_append_take store_append_length)

lemma items_loop_h_extends:
  "items_loop_h h1 items xs = Inr h' \<Longrightarrow> extends h S h1 \<Longrightarrow> length h \<le> items \<Longrightarrow>
   extends h S h' \<and> length h1 \<le> length h'"
proof (induction xs arbitrary: h1)
  case Nil
  then show ?case by simp
next
  case (Cons x xs)
  from Cons.prems(1) obtain s where x: "x = VStr s" by (cases x) simp_all
  show ?case
  proof (cases "length (py_split CHR '':'' s) = 3")
    case False
    with Cons x show ?thesis by (simp del: py_split.simps)
  next
    case True
    with Cons.prems(1) x obtain n where n: "py_int (py_split CHR '':'' s ! 0) = Some n"
      by (cases "py_int (py_split CHR '':'' s ! 0)") (simp_all del: py_split.simps)
    let ?ob = "ODict [(''id'', VInt n), (''title'', VStr (py_split CHR '':'' s ! 1)),
                      (''active'', VBool (py_lower (py_split CHR '':'' s ! 2) = ''true''))]"
    let ?h2 = "store_append (h1 @ [?ob]) items (VRef (length h1))"
    from Cons.prems(1) x True n have loop: "items_loop_h ?h2 items xs = Inr h'"
      by (simp add: Let_def del: py_split.simps)
    from Cons.prems(2) have "extends h S (h1 @ [?ob])"
      by (rule extends_alloc) (simp add: obj_vals_def)
    moreover from Cons.prems(2) have "length h \<le> length h1" by (simp add: extends_def)
    ultimately have "extends h S ?h2"
      using Cons.prems(3) by (intro extends_append) auto
    from Cons.IH [OF loop this Cons.prems(3)] show ?thesis
      by (simp add: store_append_length)
  qed
qed

lemma convert_flattened_h_extends:
  assumes conv: "convert_flattened_to_unified_h h a = Inr (h', u)"
  shows "\<exists>fd. store_get h a = Some (ODict fd) \<and> extends h (passed_refs fd) h'
           \<and> u = length h \<and> u < length h'"
proof -
  from conv obtain fd where fd: "store_get h a = Some (ODict fd)"
    by (auto simp: convert_flattened_to_unified_h_def split: option.splits obj.splits)
  let ?S = "passed_refs fd"
  let ?n = "length h"
  define h1 where "h1 = h @ [ODict []]"
  define h2 where "h2 = store_setitem h1 ?n ''message'' (dict_get fd ''message'' (VStr ''''))"
  define h3 where "h3 = store_setitem h2 ?n ''timestamp'' (dict_get fd ''timestamp'' (VStr ''''))"
  define h4 where "h4 = h3 @ [ODict [(''id'', dict_get fd ''user_id'' VNone),
                               (''name'', dict_get fd ''user_name'' (VStr '''')),
                               (''email'', dict_get fd ''user_email'' (VStr ''''))]]"
  define h5 where "h5 = store_setitem h4 ?n ''user'' (VRef (length h3))"
  define h6 where "h6 = h5 @ [ODict [(''version'', dict_get fd ''metadata_version'' (VStr '''')),
                               (''format'', VStr ''unified''),
                               (''encoding'', dict_get fd ''metadata_encoding'' (VStr ''''))]]"
  define h7 where "h7 = store_setitem h6 ?n ''metadata'' (VRef (length h5))"
  define h8 where "h8 = h7 @ [OList []]"
  define h9 where "h9 = store_setitem h8 ?n ''items'' (VRef (length h7))"
  have len: "length h1 = Suc ?n" "length h2 = Suc ?n" "length h3 = Suc ?n"
    "length h4 = Suc (Suc ?n)" "length h5 = Suc (Suc ?n)" "length h6 = Suc (Suc (Suc ?n))"
    "length h7 = Suc (Suc (Suc ?n))" "length h8 = Suc (Suc (Suc (Suc ?n)))"
    "length h9 = Suc (Suc (Suc (Suc ?n)))"
    by (simp_all add: h1_def h2_def h3_def h4_def h5_def h6_def h7_def h8_def h9_def
        store_setitem_length)
  have e1: "extends h ?S h1"
    unfolding h1_def by (rule extends_alloc [OF extends_refl]) (simp add: obj_vals_def)
  have e2: "extends h ?S h2"
    unfolding h2_def using e1
    by (rule extends_setitem) (auto simp: dict_get_def passed_refs_def scalar_keys_def split: option.splits)
  have e3: "extends h ?S h3"
    unfolding h3_def using e2
    by (rule extends_setitem) (auto simp: dict_get_def passed_refs_def scalar_keys_def split: option.splits)
  have e4: "extends h ?S h4"
    unfolding h4_def using e3
    by (rule extends_alloc)
       (auto simp: dict_get_def passed_refs_def scalar_keys_def obj_vals_def split: option.splits)
  have e5: "extends h ?S h5"
    unfolding h5_def using e4 by (rule extends_setitem) (auto simp: len)
  have e6: "extends h ?S h6"
    unfolding h6_def using e5
    by (rule extends_alloc)
       (auto simp: dict_get_def passed_refs_def scalar_keys_def obj_vals_def split: option.splits)
  have e7: "extends h ?S h7"
    unfolding h7_def using e6 by (rule extends_setitem) (auto simp: len)
  have e8: "extends h ?S h8"
    unfolding h8_def using e7 by (rule extends_alloc) (simp add: obj_vals_def)
  have e9: "extends h ?S h9"
    unfolding h9_def using e8 by (rule extends_setitem) (auto simp: len)
  from conv fd have res:
    "(case map_of fd ''items'' of
        Some (VRef l) \<Rightarrow>
          (case store_get h9 l of
             Some (OList item_strs) \<Rightarrow>
               (case items_loop_h h9 (length h7) item_strs of
                  Inl e \<Rightarrow> Inl e
                | Inr h' \<Rightarrow> Inr (h', ?n))
           | _ \<Rightarrow> Inr (h9, ?n))
      | _ \<Rightarrow> Inr (h9, ?n)) = (Inr (h', u) :: py_error + store \<times> addr)"
    unfolding convert_flattened_to_unified_h_def Let_def
        h1_def h2_def h3_def h4_def h5_def h6_def h7_def h8_def h9_def
    by simp
  then have u: "u = ?n"
    by (auto split: option.splits val.splits obj.splits sum.splits)
  from res have "h' = h9 \<or> (\<exists>xs. items_loop_h h9 (length h7) xs = Inr h')"
    by (auto split: option.splits val.splits obj.splits sum.splits)
  then have "extends h ?S h' \<and> length h9 \<le> length h'"
  proof
    assume "h' = h9"
    with e9 show ?thesis by simp
  next
    assume "\<exists>xs. items_loop_h h9 (length h7) xs = Inr h'"
    then obtain xs where "items_loop_h h9 (length h7) xs = Inr h'" by blast
    from items_loop_h_extends [OF this e9] show ?thesis by (simp add: len)
  qed
  with fd u len show ?thesis by auto
qed

lemma closedD: "closed h \<Longrightarrow> b < length h \<Longrightarrow> VRef c \<in> set (obj_vals (h ! b)) \<Longrightarrow> c < length h"
  by (fastforce simp: closed_def list_all_iff val_in_def)

lemma closed_reach:
  assumes "closed h" "s < length h"
  shows "reach h s \<subseteq> {..<length h}"
proof
  fix b
  assume "b \<in> reach h s"
  then show "b \<in> {..<length h}"
    using assms by (induction rule: reach.induct) (auto dest: closedD)
qed

lemma reach_fresh:
  assumes "extends h S h'" "\<forall>s\<in>S. s < length h" "closed h \<or> S = {}"
    and "length h \<le> u" "u < length h'"
  shows "reach h' u \<subseteq> {length h..<length h'} \<union> (\<Union>s\<in>S. reach h s)"
proof (rule reach_new)
  from assms(1) show "new_refs_ok (length h) S h'" "length h \<le> length h'"
    "take (length h) h' = h"
    by (simp_all add: extends_def)
  from assms(2,3) show "\<forall>s\<in>S. reach h s \<subseteq> {..<length h}"
    using closed_reach by blast
qed (use assms in auto)

lemma dumps_frame:
  assumes "\<forall>b\<in>A. store_get h2 b = store_get h b"
    and "\<forall>b\<in>A. \<forall>ob. store_get h b = Some ob \<longrightarrow> (\<forall>c. VRef c \<in> set (obj_vals ob) \<longrightarrow> c \<in> A)"
  shows "(\<forall>c. v = VRef c \<longrightarrow> c \<in> A) \<Longrightarrow> dumps_h h2 p v = dumps_h h p v"
    and "(\<forall>c. VRef c \<in> set vs \<longrightarrow> c \<in> A) \<Longrightarrow> dumps_list h2 p vs = dumps_list h p vs"
    and "(\<forall>c. VRef c \<in> set (map snd kvs) \<longrightarrow> c \<in> A) \<Longrightarrow>
         dumps_fields h2 p kvs = dumps_fields h p kvs"
  using assms
proof (induction h p v and h p vs and h p kvs rule: dumps_h_dumps_list_dumps_fields.induct)
  case (6 h markers a)
  from 6(3) have aA: "a \<in> A" by simp
  with 6(4) have eq: "store_get h2 a = store_get h a" by simp
  show ?case
  proof (cases "a \<in> set markers")
    case True
    then show ?thesis by simp
  next
    case False
    show ?thesis
    proof (cases "store_get h a")
      case None
      with eq False show ?thesis by simp
    next
      case (Some ob)
      with aA 6(5) have refs: "\<forall>c. VRef c \<in> set (obj_vals ob) \<longrightarrow> c \<in> A" by blast
      show ?thesis
      proof (cases ob)
        case (OList vs)
        with refs have "\<forall>c. VRef c \<in> set vs \<longrightarrow> c \<in> A" by (simp add: obj_vals_def)
        from 6(1) [OF False Some OList this 6(4) 6(5)]
        show ?thesis using eq Some OList False by simp
      next
        case (ODict kvs)
        with refs have "\<forall>c. VRef c \<in> set (map snd kvs) \<longrightarrow> c \<in> A"
          by (simp add: obj_vals_def)
        from 6(2) [OF False Some ODict this 6(4) 6(5)]
        show ?thesis using eq Some ODict False by simp
      qed
    qed
  qed
next
  case (8 h markers v vs)
  from 8(3) have v: "\<forall>c. v = VRef c \<longrightarrow> c \<in> A"
    and vs: "\<forall>c. VRef c \<in> set vs \<longrightarrow> c \<in> A" by auto
  have hd: "dumps_h h2 markers v = dumps_h h markers v" by (rule 8(1) [OF v 8(4) 8(5)])
  show ?case
  proof (cases "dumps_h h markers v")
    case (Inl e)
    with hd show ?thesis by simp
  next
    case (Inr j)
    from 8(2) [OF Inr vs 8(4) 8(5)] hd Inr show ?thesis by simp
  qed
next
  case (10 h markers k v kvs)
  from 10(3) have v: "\<forall>c. v = VRef c \<longrightarrow> c \<in> A"
    and kvs: "\<forall>c. VRef c \<in> set (map snd kvs) \<longrightarrow> c \<in> A" by auto
  have hd: "dumps_h h2 markers v = dumps_h h markers v" by (rule 10(1) [OF v 10(4) 10(5)])
  show ?case
  proof (cases "dumps_h h markers v")
    case (Inl e)
    with hd show ?thesis by simp
  next
    case (Inr j)
    from 10(2) [OF Inr kvs 10(4) 10(5)] hd Inr show ?thesis by simp
  qed
qed simp_all

lemma dumps_old_frame:
  assumes "closed h" "take (length h) h2 = h" "length h \<le> length h2" "a < length h"
  shows "dumps_h h2 [] (VRef a) = dumps_h h [] (VRef a)"
proof (rule dumps_frame(1) [where A = "{..<length h}"])
  show "\<forall>b\<in>{..<length h}. store_get h2 b = store_get h b"
  proof
    fix b assume "b \<in> {..<length h}"
    then have b: "b < length h" by simp
    with assms(2) have "h2 ! b = h ! b" by (metis nth_take)
    with b assms(3) show "store_get h2 b = store_get h b" by (simp add: store_get_def)
  qed
  show "\<forall>b\<in>{..<length h}. \<forall>ob. store_get h b = Some ob \<longrightarrow>
          (\<forall>c. VRef c \<in> set (obj_vals ob) \<longrightarrow> c \<in> {..<length h})"
    using assms(1) by (auto simp: store_get_def dest: closedD)
  from assms(4) show "\<forall>c. VRef a = VRef c \<longrightarrow> c \<in> {..<length h}" by simp
qed

lemma dumps_new_frame:
  assumes "new_refs_ok n {} h'" "n \<le> u" "u < length h'" "b < n"
  shows "dumps_h (h'[b := ob]) [] (VRef u) = dumps_h h' [] (VRef u)"
proof (rule dumps_frame(1) [where A = "{n..<length h'}"])
  from assms(4) show "\<forall>c\<in>{n..<length h'}. store_get (h'[b := ob]) c = store_get h' c"
    by (simp add: store_get_def)
  show "\<forall>c\<in>{n..<length h'}. \<forall>ob. store_get h' c = Some ob \<longrightarrow>
          (\<forall>d. VRef d \<in> set (obj_vals ob) \<longrightarrow> d \<in> {n..<length h'})"
  proof (intro ballI allI impI)
    fix c ob' d
    assume "c \<in> {n..<length h'}" and "store_get h' c = Some ob'"
      and d: "VRef d \<in> set (obj_vals ob')"
    then have "ob' = h' ! c" "n \<le> c" "c < length h'"
      by (auto simp: store_get_def split: if_splits)
    with assms(1) d have "(n \<le> d \<and> d < length h') \<or> d \<in> {}"
      unfolding new_refs_ok_def by blast
    then show "d \<in> {n..<length h'}" by simp
  qed
  from assms(2,3) show "\<forall>c. VRef u = VRef c \<longrightarrow> c \<in> {n..<length h'}" by simp
qed

lemma dumps_root_valid:
  assumes "dumps_h h [] (VRef a) = Inr doc"
  shows "a < length h"
proof (rule ccontr)
  assume "\<not> a < length h"
  then have "store_get h a = None" by (simp add: store_get_def)
  with assms show False by simp
qed

text \<open>
  The two models on the same data. The record of C1 laid out in a store, with its items in
  a list of their own, converts on the store to a record whose document is the document of
  the result on values; likewise for a nested record.
\<close>

lemma store_and_values_agree_flattened_example:
  "(case convert_flattened_to_unified_h
           [OList [VStr ''1:Task A:true'', VStr ''2:Task B:false''],
            ODict [(''message'', VStr ''hi''), (''timestamp'', VStr ''t1''),
                   (''user_id'', VInt 5), (''user_name'', VStr ''Ann''),
                   (''user_email'', VStr ''a@x.com''), (''metadata_version'', VStr ''1.0''),
                   (''metadata_encoding'', VStr ''utf8''), (''items'', VRef 0)]] 1 of
      Inl e \<Rightarrow> Inl e
    | Inr (h', u) \<Rightarrow> dumps_h h' [] (VRef u))
   = (case convert_flattened_to_unified
             [(''message'', PStr ''hi''), (''timestamp'', PStr ''t1''),
              (''user_id'', PInt 5), (''user_name'', PStr ''Ann''),
              (''user_email'', PStr ''a@x.com''), (''metadata_version'', PStr ''1.0''),
              (''metadata_encoding'', PStr ''utf8''),
              (''items'', PList [PStr ''1:Task A:true'', PStr ''2:Task B:false''])] of
        Inl e \<Rightarrow> Inl e
      | Inr out \<Rightarrow> Inr (json_dumps (PDict out)))"
  by (simp add: convert_flattened_to_unified_h_def convert_flattened_to_unified_def
      store_get_def store_setitem_def store_append_def dict_get_def dict_set_def
      py_split_colon_examples py_int_examples py_lower_examples del: py_split.simps)

lemma store_and_values_agree_nested_example:
  "(case convert_nested_to_unified_h
           [ODict [(''version'', VStr ''1.0''), (''format'', VStr ''nested'')],
            OList [VInt 1, VNone],
            ODict [(''message'', VStr ''hi''), (''metadata'', VRef 0), (''items'', VRef 1)]] 2 of
      Inl e \<Rightarrow> Inl e
    | Inr (h', u) \<Rightarrow> dumps_h h' [] (VRef u))
   = (case convert_nested_to_unified
             [(''message'', PStr ''hi''),
              (''metadata'', PDict [(''version'', PStr ''1.0''), (''format'', PStr ''nested'')]),
              (''items'', PList [PInt 1, PNone])] of
        Inl e \<Rightarrow> Inl e
      | Inr out \<Rightarrow> Inr (json_dumps (PDict out)))"
  by (simp add: convert_nested_to_unified_h_def convert_nested_to_unified_def
      store_get_def store_setitem_def dict_set_def)

text \<open>
  C3, as the spec states it, fails for the flattened converter: it stores the values of the
  scalar keys in the result as they are. With \<open>user_id\<close> holding a list (the container at
  address 0), the list is reachable from the input record (address 1) and from the result
  (address 2), and appending to it through the result changes what is read from the input.
\<close>

theorem C3_flattened_shares_container_counterexample:
  "convert_flattened_to_unified_h [OList [VInt 1], ODict [(''user_id'', VRef 0)]] 1
   = Inr ([OList [VInt 1], ODict [(''user_id'', VRef 0)],
           ODict [(''message'', VStr ''''), (''timestamp'', VStr ''''), (''user'', VRef 3),
                  (''metadata'', VRef 4), (''items'', VRef 5)],
           ODict [(''id'', VRef 0), (''name'', VStr ''''), (''email'', VStr '''')],
           ODict [(''version'', VStr ''''), (''format'', VStr ''unified''),
                  (''encoding'', VStr '''')],
           OList []], 2)
   \<and> 0 \<in> reach [OList [VInt 1], ODict [(''user_id'', VRef 0)]] 1
   \<and> 0 \<in> reach [OList [VInt 1], ODict [(''user_id'', VRef 0)],
           ODict [(''message'', VStr ''''), (''timestamp'', VStr ''''), (''user'', VRef 3),
                  (''metadata'', VRef 4), (''items'', VRef 5)],
           ODict [(''id'', VRef 0), (''name'', VStr ''''), (''email'', VStr '''')],
           ODict [(''version'', VStr ''''), (''format'', VStr ''unified''),
                  (''encoding'', VStr '''')],
           OList []] 2
   \<and> dumps_h ([OList [VInt 1], ODict [(''user_id'', VRef 0)],
           ODict [(''message'', VStr ''''), (''timestamp'', VStr ''''), (''user'', VRef 3),
                  (''metadata'', VRef 4), (''items'', VRef 5)],
           ODict [(''id'', VRef 0), (''name'', VStr ''''), (''email'', VStr '''')],
           ODict [(''version'', VStr ''''), (''format'', VStr ''unified''),
                  (''encoding'', VStr '''')],
           OList []] [0 := OList [VInt 1, VInt 2]]) [] (VRef 1)
     \<noteq> dumps_h [OList [VInt 1], ODict [(''user_id'', VRef 0)]] [] (VRef 1)"
proof (intro conjI)
  show "0 \<in> reach [OList [VInt 1], ODict [(''user_id'', VRef 0)]] 1"
    by (rule reach.step [where b = 1], rule reach.root) (simp_all add: obj_vals_def)
  show "0 \<in> reach [OList [VInt 1], ODict [(''user_id'', VRef 0)],
           ODict [(''message'', VStr ''''), (''timestamp'', VStr ''''), (''user'', VRef 3),
                  (''metadata'', VRef 4), (''items'', VRef 5)],
           ODict [(''id'', VRef 0), (''name'', VStr ''''), (''email'', VStr '''')],
           ODict [(''version'', VStr ''''), (''format'', VStr ''unified''),
                  (''encoding'', VStr '''')],
           OList []] 2"
    by (rule reach.step [where b = 3], rule reach.step [where b = 2], rule reach.root)
       (simp_all add: obj_vals_def)
qed (simp_all add: convert_flattened_to_unified_h_def store_get_def store_setitem_def
    dict_get_def dict_set_def)

text \<open>
  C3, amended. Neither converter changes a container that existed before the call. Every
  container reachable from the result of the nested converter is allocated by the call, so
  putting any object in place of a container of the result leaves the document read from
  the input as it was, and putting any object in place of a container that existed before
  the call leaves the document read from the result as it is. Every container reachable
  from the result of the flattened converter is allocated by the call or is reachable from
  a container that the input stores under one of its seven scalar keys; when none of these
  values is a container the result shares no container with the input.
\<close>

theorem C3_inputs_unchanged_and_sharing:
  "(convert_nested_to_unified_h h a = Inr (h', u) \<longrightarrow>
      take (length h) h' = h
      \<and> reach h' u \<subseteq> {length h..<length h'}
      \<and> (closed h \<longrightarrow>
           (\<forall>b\<in>reach h' u. \<forall>ob. dumps_h (h'[b := ob]) [] (VRef a) = dumps_h h [] (VRef a)))
      \<and> (\<forall>b<length h. \<forall>ob. dumps_h (h'[b := ob]) [] (VRef u) = dumps_h h' [] (VRef u)))
   \<and> (closed g \<longrightarrow> convert_flattened_to_unified_h g c = Inr (g', w) \<longrightarrow>
        take (length g) g' = g
        \<and> (\<exists>fd. store_get g c = Some (ODict fd)
              \<and> reach g' w \<subseteq> {length g..<length g'} \<union> (\<Union>s\<in>passed_refs fd. reach g s)
              \<and> (passed_refs fd = {} \<longrightarrow> reach g' w \<inter> reach g c = {})))"
proof (intro conjI impI)
  assume conv: "convert_nested_to_unified_h h a = Inr (h', u)"
  from convert_nested_h_fresh [OF conv]
  have pre: "take (length h) h' = h" and u: "length h \<le> u" "u < length h'"
    and ok: "new_refs_ok (length h) {} h'"
    by auto
  from pre u have ext: "extends h {} h'" using ok by (simp add: extends_def)
  from reach_fresh [OF ext _ _ u] have fresh: "reach h' u \<subseteq> {length h..<length h'}" by simp
  from convert_nested_h_cases [OF conv] obtain doc where "dumps_h h [] (VRef a) = Inr doc"
    by blast
  then have a: "a < length h" by (rule dumps_root_valid)
  show "take (length h) h' = h" by (rule pre)
  show "reach h' u \<subseteq> {length h..<length h'}" by (rule fresh)
  show "\<forall>b<length h. \<forall>ob. dumps_h (h'[b := ob]) [] (VRef u) = dumps_h h' [] (VRef u)"
    using dumps_new_frame [OF ok u] by blast
  show "\<forall>b\<in>reach h' u. \<forall>ob. dumps_h (h'[b := ob]) [] (VRef a) = dumps_h h [] (VRef a)"
    if cl: "closed h"
  proof (intro ballI allI)
    fix b ob
    assume "b \<in> reach h' u"
    with fresh have "length h \<le> b" by auto
    with pre have "take (length h) (h'[b := ob]) = h" by simp
    moreover from u have "length h \<le> length (h'[b := ob])" by simp
    ultimately show "dumps_h (h'[b := ob]) [] (VRef a) = dumps_h h [] (VRef a)"
      using cl a by (intro dumps_old_frame)
  qed
next
  assume cl: "closed g" and conv: "convert_flattened_to_unified_h g c = Inr (g', w)"
  from convert_flattened_h_extends [OF conv] obtain fd where
    fd: "store_get g c = Some (ODict fd)" and ext: "extends g (passed_refs fd) g'"
    and w: "w = length g" "w < length g'"
    by blast
  from fd have c: "c < length g" "g ! c = ODict fd"
    by (auto simp: store_get_def split: if_splits)
  have S: "\<forall>s\<in>passed_refs fd. s < length g"
  proof
    fix s assume "s \<in> passed_refs fd"
    then obtain k where "map_of fd k = Some (VRef s)" by (auto simp: passed_refs_def)
    then have "(k, VRef s) \<in> set fd" by (rule map_of_SomeD)
    then have "VRef s \<in> set (map snd fd)" by force
    with c have "VRef s \<in> set (obj_vals (g ! c))" by (simp add: obj_vals_def)
    with cl c(1) show "s < length g" by (rule closedD)
  qed
  from w have wn: "length g \<le> w" by simp
  from reach_fresh [OF ext S _ wn w(2)] cl
  have sub: "reach g' w \<subseteq> {length g..<length g'} \<union> (\<Union>s\<in>passed_refs fd. reach g s)" by simp
  have old: "reach g c \<subseteq> {..<length g}" using cl c(1) by (rule closed_reach)
  from ext show "take (length g) g' = g" by (simp add: extends_def)
  have dis: "passed_refs fd = {} \<longrightarrow> reach g' w \<inter> reach g c = {}"
  proof
    assume "passed_refs fd = {}"
    with sub have "reach g' w \<subseteq> {length g..<length g'}" by simp
    with old show "reach g' w \<inter> reach g c = {}" by fastforce
  qed
  from sub dis fd
  show "\<exists>fd. store_get g c = Some (ODict fd)
          \<and> reach g' w \<subseteq> {length g..<length g'} \<union> (\<Union>s\<in>passed_refs fd. reach g s)
          \<and> (passed_refs fd = {} \<longrightarrow> reach g' w \<inter> reach g c = {})"
    by blast
qed

theorem C3_inputs_unchanged_and_sharing_witness:
  "convert_nested_to_unified_h
     [ODict [(''format'', VStr ''nested'')],
      ODict [(''message'', VStr ''hi''), (''metadata'', VRef 0)]] 1
   = Inr ([ODict [(''format'', VStr ''nested'')],
           ODict [(''message'', VStr ''hi''), (''metadata'', VRef 0)],
           ODict [(''format'', VStr ''unified'')],
           ODict [(''message'', VStr ''hi''), (''metadata'', VRef 2)]], 3)
   \<and> closed [ODict [(''format'', VStr ''nested'')],
              ODict [(''message'', VStr ''hi''), (''metadata'', VRef 0)]]
   \<and> dumps_h ([ODict [(''format'', VStr ''nested'')],
                ODict [(''message'', VStr ''hi''), (''metadata'', VRef 0)],
                ODict [(''format'', VStr ''unified'')],
                ODict [(''message'', VStr ''hi''), (''metadata'', VRef 2)]] [3 := OList []])
        [] (VRef 1)
     = dumps_h [ODict [(''format'', VStr ''nested'')],
                ODict [(''message'', VStr ''hi''), (''metadata'', VRef 0)]] [] (VRef 1)
   \<and> closed [OList [VStr ''1:Task A:true''],
              ODict [(''message'', VStr ''hi''), (''items'', VRef 0)]]
   \<and> convert_flattened_to_unified_h
        [OList [VStr ''1:Task A:true''],
         ODict [(''message'', VStr ''hi''), (''items'', VRef 0)]] 1
     = Inr ([OList [VStr ''1:Task A:true''],
             ODict [(''message'', VStr ''hi''), (''items'', VRef 0)],
             ODict [(''message'', VStr ''hi''), (''timestamp'', VStr ''''), (''user'', VRef 3),
                    (''metadata'', VRef 4), (''items'', VRef 5)],
             ODict [(''id'', VNone), (''name'', VStr ''''), (''email'', VStr '''')],
             ODict [(''version'', VStr ''''), (''format'', VStr ''unified''),
                    (''encoding'', VStr '''')],
             OList [VRef 6],
             ODict [(''id'', VInt 1), (''title'', VStr ''Task A''), (''active'', VBool True)]],
            2)
   \<and> reach [OList [VStr ''1:Task A:true''],
             ODict [(''message'', VStr ''hi''), (''items'', VRef 0)],
             ODict [(''message'', VStr ''hi''), (''timestamp'', VStr ''''), (''user'', VRef 3),
                    (''metadata'', VRef 4), (''items'', VRef 5)],
             ODict [(''id'', VNone), (''name'', VStr ''''), (''email'', VStr '''')],
             ODict [(''version'', VStr ''''), (''format'', VStr ''unified''),
                    (''encoding'', VStr '''')],
             OList [VRef 6],
             ODict [(''id'', VInt 1), (''title'', VStr ''Task A''), (''active'', VBool True)]] 2
       \<inter> reach [OList [VStr ''1:Task A:true''],
                ODict [(''message'', VStr ''hi''), (''items'', VRef 0)]] 1 = {}"
proof -
  let ?h = "[ODict [(''format'', VStr ''nested'')],
             ODict [(''message'', VStr ''hi''), (''metadata'', VRef 0)]]"
  let ?h' = "[ODict [(''format'', VStr ''nested'')],
              ODict [(''message'', VStr ''hi''), (''metadata'', VRef 0)],
              ODict [(''format'', VStr ''unified'')],
              ODict [(''message'', VStr ''hi''), (''metadata'', VRef 2)]]"
  let ?g = "[OList [VStr ''1:Task A:true''],
             ODict [(''message'', VStr ''hi''), (''items'', VRef 0)]]"
  let ?g' = "[OList [VStr ''1:Task A:true''],
             ODict [(''message'', VStr ''hi''), (''items'', VRef 0)],
             ODict [(''message'', VStr ''hi''), (''timestamp'', VStr ''''), (''user'', VRef 3),
                    (''metadata'', VRef 4), (''items'', VRef 5)],
             ODict [(''id'', VNone), (''name'', VStr ''''), (''email'', VStr '''')],
             ODict [(''version'', VStr ''''), (''format'', VStr ''unified''),
                    (''encoding'', VStr '''')],
             OList [VRef 6],
             ODict [(''id'', VInt 1), (''title'', VStr ''Task A''), (''active'', VBool True)]]"
  have n: "convert_nested_to_unified_h ?h 1 = Inr (?h', 3)"
    by (simp add: convert_nested_to_unified_h_def store_get_def store_setitem_def dict_set_def)
  have f: "convert_flattened_to_unified_h ?g 1 = Inr (?g', 2)"
    by (simp add: convert_flattened_to_unified_h_def store_get_def store_setitem_def
        store_append_def dict_get_def dict_set_def py_split_colon_examples py_int_examples py_lower_examples
        del: py_split.simps)
  have ch: "closed ?h" by (simp add: closed_def val_in_def obj_vals_def)
  have cg: "closed ?g" by (simp add: closed_def val_in_def obj_vals_def)
  have fd: "store_get ?g 1 = Some (ODict [(''message'', VStr ''hi''), (''items'', VRef 0)])"
    by (simp add: store_get_def)
  have p: "passed_refs [(''message'', VStr ''hi''), (''items'', VRef 0)] = {}"
    by (auto simp: passed_refs_def scalar_keys_def)
  have r: "3 \<in> reach ?h' 3" by (rule reach.root)
  from C3_inputs_unchanged_and_sharing [of ?h 1 ?h' 3 ?g 1 ?g' 2] n f ch cg
  have nested: "\<forall>b\<in>reach ?h' 3. \<forall>ob. dumps_h (?h'[b := ob]) [] (VRef 1) = dumps_h ?h [] (VRef 1)"
    and flat: "\<exists>fd. store_get ?g 1 = Some (ODict fd)
              \<and> (passed_refs fd = {} \<longrightarrow> reach ?g' 2 \<inter> reach ?g 1 = {})"
    by blast+
  from nested r have "dumps_h (?h'[3 := OList []]) [] (VRef 1) = dumps_h ?h [] (VRef 1)"
    by blast
  moreover from flat fd p have "reach ?g' 2 \<inter> reach ?g 1 = {}" by auto
  ultimately show ?thesis using n f ch cg by simp
qed

end
